theory Spec2Isabelle
  imports Complex_Main "HOL-Library.Sublist"
begin

section \<open>Time and randomness\<close>

text \<open>
  Times are milliseconds as read from \<^verbatim>\<open>Date.now()\<close>, modelled as \<open>int\<close>.
  A result of \<^verbatim>\<open>Math.random()\<close> is a real number \<open>u\<close> with \<open>0 \<le> u < 1\<close>; every
  function that calls \<^verbatim>\<open>Math.random()\<close> takes the value drawn as an argument.
\<close>

definition isRandom :: "real \<Rightarrow> bool" where
  "isRandom u \<longleftrightarrow> 0 \<le> u \<and> u < 1"

text \<open>
  \<^verbatim>\<open>randomDelay(min, max)\<close> of browser-utils.ts computes
  \<^verbatim>\<open>Math.floor(Math.random() * (max - min + 1)) + min\<close> and passes it to \<^verbatim>\<open>setTimeout\<close>.
  The function below is the duration it asks for.
\<close>

definition randomDelay :: "real \<Rightarrow> int \<Rightarrow> int \<Rightarrow> int" where
  "randomDelay u mn mx = \<lfloor>u * of_int (mx - mn + 1)\<rfloor> + mn"

text \<open>
  An awaited timer of \<open>d\<close> milliseconds lets at least \<open>d\<close> milliseconds pass, and never a
  negative time. \<open>None\<close> stands for a timer that was not started.
\<close>

fun elapsed :: "int option \<Rightarrow> int" where
  "elapsed None = 0"
| "elapsed (Some d) = max 0 d"

section \<open>RateLimiter\<close>

record rate_limiter =
  lastRequestTime :: int
  requestCount :: nat

definition resetInterval :: int where
  "resetInterval = 60000"

definition maxRequests :: nat where
  "maxRequests = 30"

definition newRateLimiter :: rate_limiter where
  "newRateLimiter = \<lparr>lastRequestTime = 0, requestCount = 0\<rparr>"

text \<open>The three checks of \<^verbatim>\<open>waitIfNeeded\<close>, in the order of the source.\<close>

definition resetIfIntervalPassed :: "int \<Rightarrow> rate_limiter \<Rightarrow> rate_limiter" where
  "resetIfIntervalPassed now rl =
     (if now - lastRequestTime rl > resetInterval then rl\<lparr>requestCount := 0\<rparr> else rl)"

definition limitCheck :: "int \<Rightarrow> rate_limiter \<Rightarrow> int option \<times> rate_limiter" where
  "limitCheck now rl =
     (if requestCount rl \<ge> maxRequests
      then (Some (resetInterval - (now - lastRequestTime rl)), rl\<lparr>requestCount := 0\<rparr>)
      else (None, rl))"

definition naturalDelay :: "int \<Rightarrow> real \<Rightarrow> rate_limiter \<Rightarrow> int option" where
  "naturalDelay now u rl =
     (let timeSinceLastRequest = now - lastRequestTime rl
      in if timeSinceLastRequest < 2000
         then Some (randomDelay u (2000 - timeSinceLastRequest) 4000)
         else None)"

text \<open>
  The outcome of one call: the limiter afterwards, the two timers it awaited (if any) and
  the clock reading at which it returned. \<open>now\<close> is the clock on entry, \<open>u\<close> the random
  draw of \<^verbatim>\<open>randomDelay\<close>, \<open>late\<close> the time that passes during the call beyond the
  durations of its timers.
\<close>

record wait_result =
  limiter :: rate_limiter
  limitWait :: "int option"
  spacingWait :: "int option"
  returned :: int

definition waitIfNeeded :: "int \<Rightarrow> real \<Rightarrow> nat \<Rightarrow> rate_limiter \<Rightarrow> wait_result" where
  "waitIfNeeded now u late rl =
     (let rl1 = resetIfIntervalPassed now rl;
          (w1, rl2) = limitCheck now rl1;
          w2 = naturalDelay now u rl2;
          fin = now + elapsed w1 + elapsed w2 + int late
      in \<lparr>limiter = \<lparr>lastRequestTime = fin, requestCount = requestCount rl2 + 1\<rparr>,
          limitWait = w1, spacingWait = w2, returned = fin\<rparr>)"

subsection \<open>Sequences of calls\<close>

text \<open>
  One call of a sequence: the caller lets \<open>idle\<close> milliseconds pass since the previous
  return, then awaits \<^verbatim>\<open>waitIfNeeded()\<close>.
\<close>

record call =
  idle :: nat
  draw :: real
  overrun :: nat

record world =
  clock :: int
  governor :: rate_limiter
  returns :: "int list"

definition fresh :: "nat \<Rightarrow> world" where
  "fresh t = \<lparr>clock = int t, governor = newRateLimiter, returns = []\<rparr>"

definition step :: "call \<Rightarrow> world \<Rightarrow> world" where
  "step c w =
     (let out = waitIfNeeded (clock w + int (idle c)) (draw c) (overrun c) (governor w)
      in \<lparr>clock = returned out, governor = limiter out, returns = returned out # returns w\<rparr>)"

definition run :: "call list \<Rightarrow> world \<Rightarrow> world" where
  "run cs w = fold step cs w"

text \<open>Return times, newest first, at least 2000 apart.\<close>

fun spaced :: "int list \<Rightarrow> bool" where
  "spaced [] = True"
| "spaced [x] = True"
| "spaced (x # y # xs) = (y + 2000 \<le> x \<and> spaced (y # xs))"

definition governor_inv :: "world \<Rightarrow> bool" where
  "governor_inv w \<longleftrightarrow>
     lastRequestTime (governor w) \<le> clock w \<and>
     requestCount (governor w) \<le> maxRequests \<and>
     (returns w \<noteq> [] \<longrightarrow>
        lastRequestTime (governor w) = hd (returns w) \<and> clock w = hd (returns w) \<and>
        1 \<le> requestCount (governor w)) \<and>
     spaced (returns w) \<and>
     (\<forall>x \<in> set (drop (requestCount (governor w)) (returns w)).
        x + resetInterval + 2000 * (int (requestCount (governor w)) - 1) \<le> hd (returns w))"

section \<open>Response monitoring\<close>

datatype error = AutomationBlocked | TargetClosed | TypeError | ReadFailed | SyntaxError

record response =
  status :: int
  url :: string

text \<open>\<^verbatim>\<open>String.prototype.includes\<close>: the pattern occurs somewhere in the text.\<close>

fun includes_str :: "string \<Rightarrow> string \<Rightarrow> bool" where
  "includes_str [] p = (p = [])"
| "includes_str (c # cs) p = (prefix p (c # cs) \<or> includes_str cs p)"

definition blockedUrl :: "string \<Rightarrow> bool" where
  "blockedUrl u \<longleftrightarrow> includes_str u ''/blocked'' \<or> includes_str u ''/denied''"

text \<open>
  One run of the \<^verbatim>\<open>'response'\<close> handler installed by \<^verbatim>\<open>setupRequestMonitoring\<close>.
  \<open>n\<close> is the closure variable \<^verbatim>\<open>blockedRequests\<close> on entry, \<open>u\<close> the random draw of
  the cooldown. The handler's three \<^verbatim>\<open>if\<close> statements follow one another; the
  counter keeps its increment when the handler throws.
\<close>

record handled =
  cooldown :: "int option"
  authWarning :: bool
  blockedRequests :: nat
  result :: "error + unit"

definition onResponse :: "real \<Rightarrow> nat \<Rightarrow> response \<Rightarrow> handled" where
  "onResponse u n resp =
     (let cool = (if status resp = 429 then Some (randomDelay u 30000 60000) else None);
          warn = (status resp = 401 \<or> status resp = 403);
          n' = (if blockedUrl (url resp) then n + 1 else n);
          res = (if blockedUrl (url resp) \<and> n' > 3 then Inl AutomationBlocked else Inr ())
      in \<lparr>cooldown = cool, authWarning = warn, blockedRequests = n', result = res\<rparr>)"

text \<open>
  The handler over the responses of one page, in the order it handles them; each response
  comes with the random draw its handler would use.
\<close>

fun monitor :: "nat \<Rightarrow> (real \<times> response) list \<Rightarrow> handled list" where
  "monitor n [] = []"
| "monitor n (x # xs) =
     (let h = onResponse (fst x) n (snd x) in h # monitor (blockedRequests h) xs)"

definition setupRequestMonitoring :: "(real \<times> response) list \<Rightarrow> handled list" where
  "setupRequestMonitoring xs = monitor 0 xs"

definition matchesBlock :: "real \<times> response \<Rightarrow> bool" where
  "matchesBlock x \<longleftrightarrow> blockedUrl (url (snd x))"

section \<open>Session persistence\<close>

datatype json =
  JNull | JBool bool | JNumber real | JString string
  | JArray "json list" | JObject "(string \<times> json) list"

text \<open>
  A path of the file system holds nothing, a readable file with its text, or something
  \<^verbatim>\<open>readFileSync\<close> throws on (a directory, a file without read permission).
\<close>

datatype node = File string | Unreadable

type_synonym filesystem = "string \<Rightarrow> node option"

definition existsSync :: "filesystem \<Rightarrow> string \<Rightarrow> bool" where
  "existsSync fs p \<longleftrightarrow> fs p \<noteq> None"

definition readFileSync :: "filesystem \<Rightarrow> string \<Rightarrow> error + string" where
  "readFileSync fs p = (case fs p of Some (File txt) \<Rightarrow> Inr txt | _ \<Rightarrow> Inl ReadFailed)"

text \<open>
  \<^verbatim>\<open>JSON.parse\<close> belongs to the language, not to the repository: it is a parameter
  \<open>parse\<close>, whose \<open>Inl\<close> is the exception it throws. \<open>loadSession_try\<close> is the body of the
  \<^verbatim>\<open>try\<close> block: \<open>Inr (Some v)\<close> when it returns \<open>v\<close>, \<open>Inr None\<close> when it falls
  through.
\<close>

definition loadSession_try ::
  "(string \<Rightarrow> error + json) \<Rightarrow> filesystem \<Rightarrow> string \<Rightarrow> error + json option" where
  "loadSession_try parse fs sessionPath =
     (if existsSync fs sessionPath
      then (case readFileSync fs sessionPath of
              Inl e \<Rightarrow> Inl e
            | Inr txt \<Rightarrow> (case parse txt of Inl e \<Rightarrow> Inl e | Inr v \<Rightarrow> Inr (Some v)))
      else Inr None)"

record loaded =
  state :: json
  warned :: bool

definition loadSession ::
  "(string \<Rightarrow> error + json) \<Rightarrow> filesystem \<Rightarrow> string \<Rightarrow> error + loaded" where
  "loadSession parse fs sessionPath =
     (case loadSession_try parse fs sessionPath of
        Inl e \<Rightarrow> Inr \<lparr>state = JNull, warned = True\<rparr>
      | Inr (Some v) \<Rightarrow> Inr \<lparr>state = v, warned = False\<rparr>
      | Inr None \<Rightarrow> Inr \<lparr>state = JNull, warned = False\<rparr>)"

text \<open>A file system and a parser to run \<open>loadSession\<close> on.\<close>

definition sampleParse :: "string \<Rightarrow> error + json" where
  "sampleParse txt = (if txt = ''{}'' then Inr (JObject []) else Inl SyntaxError)"

definition sampleFiles :: filesystem where
  "sampleFiles p =
     (if p = ''./data/mls-session.json'' then Some (File ''{}'')
      else if p = ''./data/broken.json'' then Some (File ''{'')
      else if p = ''./data'' then Some Unreadable
      else None)"

section \<open>Fingerprint getters\<close>

text \<open>
  The getters that \<^verbatim>\<open>setupRealisticFingerprint\<close> defines on \<^verbatim>\<open>navigator\<close> and
  \<^verbatim>\<open>screen\<close>. Each read of the property runs the getter, which calls
  \<^verbatim>\<open>Math.random()\<close>; \<open>u\<close> is the value drawn by that read. An array read out of range
  is \<^verbatim>\<open>undefined\<close>, here \<open>None\<close>.
\<close>

definition hardwareConcurrency :: "real \<Rightarrow> nat option" where
  "hardwareConcurrency u =
     (let i = \<lfloor>u * 4\<rfloor>
      in if 0 \<le> i \<and> i < 4 then Some ([2, 4, 8, 16] ! nat i) else None)"

definition availWidth :: "int \<Rightarrow> real \<Rightarrow> int" where
  "availWidth width u = width - \<lfloor>u * 10\<rfloor>"

definition availHeight :: "int \<Rightarrow> real \<Rightarrow> int" where
  "availHeight height u = height - \<lfloor>u * 40\<rfloor> - 40"

section \<open>Behaviour simulation\<close>

datatype event =
  MouseMove real real int
  | MouseWheel real real
  | KeyPress string
  | MouseClick real real
  | Timeout int

text \<open>
  The page as the simulation sees it: its viewport (\<open>None\<close> for \<^verbatim>\<open>null\<close>), the number of
  input actions it still accepts before its context closes (\<open>None\<close>: it stays open), what
  has been done to it, and how many times \<^verbatim>\<open>Math.random()\<close> has been called. The
  results of \<^verbatim>\<open>Math.random()\<close> are a sequence \<open>rnd\<close>.
\<close>

record page =
  viewport :: "(nat \<times> nat) option"
  alive :: "nat option"
  events :: "event list"
  draws :: nat

datatype outcome = Done page | Raised error page

fun raised :: "outcome \<Rightarrow> error option" where
  "raised (Done s) = None"
| "raised (Raised e s) = Some e"

fun pageOf :: "outcome \<Rightarrow> page" where
  "pageOf (Done s) = s"
| "pageOf (Raised e s) = s"

definition mathRandom :: "(nat \<Rightarrow> real) \<Rightarrow> page \<Rightarrow> real \<times> page" where
  "mathRandom rnd s = (rnd (draws s), s\<lparr>draws := draws s + 1\<rparr>)"

text \<open>An input action (mouse, wheel, keyboard) rejects once the context is closed.\<close>

definition input :: "event \<Rightarrow> page \<Rightarrow> outcome" where
  "input ev s =
     (case alive s of
        None \<Rightarrow> Done (s\<lparr>events := events s @ [ev]\<rparr>)
      | Some 0 \<Rightarrow> Raised TargetClosed s
      | Some (Suc k) \<Rightarrow> Done (s\<lparr>alive := Some k, events := events s @ [ev]\<rparr>))"

definition awaitRandomDelay :: "(nat \<Rightarrow> real) \<Rightarrow> int \<Rightarrow> int \<Rightarrow> page \<Rightarrow> page" where
  "awaitRandomDelay rnd mn mx s =
     (let (u, s1) = mathRandom rnd s
      in s1\<lparr>events := events s1 @ [Timeout (randomDelay u mn mx)]\<rparr>)"

text \<open>\<^verbatim>\<open>Math.floor(Math.random() * extent * 0.8) + extent * 0.1\<close>\<close>

definition centralCoordinate :: "real \<Rightarrow> nat \<Rightarrow> real" where
  "centralCoordinate u extent =
     of_int \<lfloor>u * of_nat extent * (8 / 10)\<rfloor> + of_nat extent * (1 / 10)"

fun generatePoints ::
  "(nat \<Rightarrow> real) \<Rightarrow> nat \<Rightarrow> nat \<times> nat \<Rightarrow> page \<Rightarrow> (real \<times> real) list \<times> page" where
  "generatePoints rnd 0 vp s = ([], s)"
| "generatePoints rnd (Suc n) vp s =
     (let (ux, s1) = mathRandom rnd s;
          (uy, s2) = mathRandom rnd s1;
          (points, s3) = generatePoints rnd n vp s2
      in ((centralCoordinate ux (fst vp), centralCoordinate uy (snd vp)) # points, s3))"

fun movePoints :: "(nat \<Rightarrow> real) \<Rightarrow> (real \<times> real) list \<Rightarrow> page \<Rightarrow> outcome" where
  "movePoints rnd [] s = Done s"
| "movePoints rnd (point # points) s =
     (let (u, s1) = mathRandom rnd s
      in case input (MouseMove (fst point) (snd point) (10 + \<lfloor>u * 10\<rfloor>)) s1 of
           Raised e s2 \<Rightarrow> Raised e s2
         | Done s2 \<Rightarrow> movePoints rnd points (awaitRandomDelay rnd 100 300 s2))"

definition simulateMouseMovement :: "(nat \<Rightarrow> real) \<Rightarrow> page \<Rightarrow> outcome" where
  "simulateMouseMovement rnd s =
     (case viewport s of
        None \<Rightarrow> Done s
      | Some vp \<Rightarrow>
          (let (u, s1) = mathRandom rnd s;
               numPoints = 3 + \<lfloor>u * 3\<rfloor>;
               (points, s2) = generatePoints rnd (nat numPoints) vp s1
           in movePoints rnd points s2))"

fun scrollLoop :: "(nat \<Rightarrow> real) \<Rightarrow> nat \<Rightarrow> page \<Rightarrow> outcome" where
  "scrollLoop rnd 0 s = Done s"
| "scrollLoop rnd (Suc n) s =
     (let (u, s1) = mathRandom rnd s;
          scrollAmount = 100 + \<lfloor>u * 300\<rfloor>
      in case input (MouseWheel 0 (of_int scrollAmount)) s1 of
           Raised e s2 \<Rightarrow> Raised e s2
         | Done s2 \<Rightarrow>
             (let s3 = awaitRandomDelay rnd 500 1500 s2;
                  (v, s4) = mathRandom rnd s3
              in if v > 7 / 10
                 then (case input (MouseWheel 0 (- of_int scrollAmount / 2)) s4 of
                         Raised e s5 \<Rightarrow> Raised e s5
                       | Done s5 \<Rightarrow> scrollLoop rnd n (awaitRandomDelay rnd 300 800 s5))
                 else scrollLoop rnd n s4))"

definition humanScroll :: "(nat \<Rightarrow> real) \<Rightarrow> page \<Rightarrow> outcome" where
  "humanScroll rnd s =
     (let (u, s1) = mathRandom rnd s;
          scrolls = 2 + \<lfloor>u * 3\<rfloor>
      in scrollLoop rnd (nat scrolls) s1)"

text \<open>The fifth entry of \<^verbatim>\<open>actions\<close>: a click somewhere in the page.\<close>

definition randomClick :: "(nat \<Rightarrow> real) \<Rightarrow> page \<Rightarrow> outcome" where
  "randomClick rnd s =
     (case viewport s of
        None \<Rightarrow> Done s
      | Some vp \<Rightarrow>
          (let (ux, s1) = mathRandom rnd s;
               (uy, s2) = mathRandom rnd s1
           in input (MouseClick (centralCoordinate ux (fst vp)) (centralCoordinate uy (snd vp))) s2))"

text \<open>\<^verbatim>\<open>actions[i]()\<close>; calling an entry that is not there is a \<^verbatim>\<open>TypeError\<close>.\<close>

definition action :: "(nat \<Rightarrow> real) \<Rightarrow> int \<Rightarrow> page \<Rightarrow> outcome" where
  "action rnd i s =
     (if i = 0 then simulateMouseMovement rnd s
      else if i = 1 then humanScroll rnd s
      else if i = 2 then input (KeyPress ''Tab'') s
      else if i = 3 then input (KeyPress ''Escape'') s
      else if i = 4 then randomClick rnd s
      else Raised TypeError s)"

fun behaviorLoop :: "(nat \<Rightarrow> real) \<Rightarrow> nat \<Rightarrow> page \<Rightarrow> outcome" where
  "behaviorLoop rnd 0 s = Done s"
| "behaviorLoop rnd (Suc n) s =
     (let (u, s1) = mathRandom rnd s
      in case action rnd \<lfloor>u * 5\<rfloor> s1 of
           Raised e s2 \<Rightarrow> Raised e s2
         | Done s2 \<Rightarrow> behaviorLoop rnd n (awaitRandomDelay rnd 500 2000 s2))"

definition simulateRealisticBehavior :: "(nat \<Rightarrow> real) \<Rightarrow> page \<Rightarrow> outcome" where
  "simulateRealisticBehavior rnd s =
     (let (u, s1) = mathRandom rnd s;
          numActions = 1 + \<lfloor>u * 3\<rfloor>
      in behaviorLoop rnd (nat numActions) s1)"

text \<open>
  Pointer events are the moves and the clicks. A page \<open>t\<close> is \<open>quiet\<close> after \<open>s\<close> when it
  has the viewport of \<open>s\<close> and no pointer event that \<open>s\<close> has not.
\<close>

fun isPointer :: "event \<Rightarrow> bool" where
  "isPointer (MouseMove x y n) = True"
| "isPointer (MouseClick x y) = True"
| "isPointer ev = False"

definition quiet :: "page \<Rightarrow> page \<Rightarrow> bool" where
  "quiet s t \<longleftrightarrow>
     viewport t = viewport s \<and> filter isPointer (events t) = filter isPointer (events s)"

section \<open>Properties of randomDelay\<close>

lemma randomDelay_lower:
  assumes "0 \<le> u" "mn \<le> mx + 1"
  shows "mn \<le> randomDelay u mn mx"
proof -
  have "0 \<le> u * of_int (mx - mn + 1)"
    using assms by simp
  then have "0 \<le> \<lfloor>u * of_int (mx - mn + 1)\<rfloor>"
    by simp
  then show ?thesis
    by (simp add: randomDelay_def)
qed

lemma randomDelay_upper:
  assumes "u < 1" "mn \<le> mx"
  shows "randomDelay u mn mx \<le> mx"
proof -
  have pos: "0 < (of_int (mx - mn + 1) :: real)"
    using assms by simp
  have "u * of_int (mx - mn + 1) < 1 * of_int (mx - mn + 1)"
    using assms(1) pos by (rule mult_strict_right_mono)
  then have "u * of_int (mx - mn + 1) < of_int (mx - mn + 1)"
    by simp
  then have "\<lfloor>u * of_int (mx - mn + 1)\<rfloor> < mx - mn + 1"
    by (simp only: floor_less_iff)
  then show ?thesis
    by (simp add: randomDelay_def)
qed

section \<open>The rate limiter: one call\<close>

lemma waitIfNeeded_count:
  "requestCount (limiter (waitIfNeeded now u late rl)) =
     (if resetInterval < now - lastRequestTime rl \<or> maxRequests \<le> requestCount rl then 1
      else requestCount rl + 1)"
  by (simp add: waitIfNeeded_def resetIfIntervalPassed_def limitCheck_def Let_def maxRequests_def)

lemma waitIfNeeded_last:
  "lastRequestTime (limiter (waitIfNeeded now u late rl)) = returned (waitIfNeeded now u late rl)"
  by (simp add: waitIfNeeded_def Let_def split: prod.splits)

lemma elapsed_nonneg: "0 \<le> elapsed w"
  by (cases w) simp_all

lemma waitIfNeeded_not_before: "now \<le> returned (waitIfNeeded now u late rl)"
proof -
  have "0 \<le> elapsed w1 + (elapsed w2 + int late)" for w1 w2
    using elapsed_nonneg [of w1] elapsed_nonneg [of w2] by simp
  then show ?thesis
    by (simp add: waitIfNeeded_def Let_def split: prod.splits) 
qed

lemma naturalDelay_spacing:
  assumes "0 \<le> u" "lastRequestTime rl \<le> now"
  shows "lastRequestTime rl + 2000 \<le> now + elapsed (naturalDelay now u rl)"
proof (cases "now - lastRequestTime rl < 2000")
  case True
  have "2000 - (now - lastRequestTime rl) \<le> randomDelay u (2000 - (now - lastRequestTime rl)) 4000"
    using assms by (intro randomDelay_lower) simp_all
  with True show ?thesis
    by (simp add: naturalDelay_def Let_def)
next
  case False
  then show ?thesis
    by (simp add: naturalDelay_def Let_def)
qed

lemma waitIfNeeded_spacing:
  assumes "0 \<le> u" "lastRequestTime rl \<le> now"
  shows "lastRequestTime rl + 2000 \<le> returned (waitIfNeeded now u late rl)"
proof -
  obtain w1 rl2 where lc: "limitCheck now (resetIfIntervalPassed now rl) = (w1, rl2)"
    by (cases "limitCheck now (resetIfIntervalPassed now rl)")
  have last: "lastRequestTime rl2 = lastRequestTime rl"
    using lc by (auto simp: limitCheck_def resetIfIntervalPassed_def split: if_splits)
  have "lastRequestTime rl2 + 2000 \<le> now + elapsed (naturalDelay now u rl2)"
    using assms last by (intro naturalDelay_spacing) simp_all
  moreover have "0 \<le> elapsed w1" by (rule elapsed_nonneg)
  ultimately show ?thesis
    using lc last by (simp add: waitIfNeeded_def Let_def)
qed

lemma waitIfNeeded_reset_gap:
  assumes "resetInterval < now - lastRequestTime rl \<or> maxRequests \<le> requestCount rl"
  shows "lastRequestTime rl + resetInterval \<le> returned (waitIfNeeded now u late rl)"
proof (cases "resetInterval < now - lastRequestTime rl")
  case True
  then show ?thesis
    using waitIfNeeded_not_before [of now u late rl] by simp
next
  case False
  with assms have full: "maxRequests \<le> requestCount rl" by simp
  have "0 \<le> elapsed w2" for w2 by (rule elapsed_nonneg)
  then show ?thesis using False full
    by (simp add: waitIfNeeded_def resetIfIntervalPassed_def limitCheck_def Let_def add.commute add_increasing2)
qed

section \<open>The rate limiter: sequences of calls\<close>

lemma spaced_below_head: "spaced (x # xs) \<Longrightarrow> \<forall>y \<in> set xs. y + 2000 \<le> x"
proof (induction xs arbitrary: x)
  case Nil
  then show ?case by simp
next
  case (Cons y ys)
  then have "y + 2000 \<le> x" and "\<forall>z \<in> set ys. z + 2000 \<le> y"
    by simp_all
  then show ?case by auto
qed

lemma spaced_tl: "spaced (x # xs) \<Longrightarrow> spaced xs"
  by (cases xs) simp_all

lemma spaced_drop: "spaced xs \<Longrightarrow> spaced (drop n xs)"
proof (induction n arbitrary: xs)
  case 0
  then show ?case by simp
next
  case (Suc n)
  then show ?case
    by (cases xs) (auto dest: spaced_tl)
qed

lemma spaced_Cons: "spaced xs \<Longrightarrow> (xs \<noteq> [] \<Longrightarrow> hd xs + 2000 \<le> r) \<Longrightarrow> spaced (r # xs)"
  by (cases xs) simp_all

lemma spaced_le_hd: "spaced xs \<Longrightarrow> x \<in> set xs \<Longrightarrow> x \<le> hd xs"
proof (cases xs)
  case Nil
  assume "x \<in> set xs"
  with Nil show ?thesis by simp
next
  case (Cons y ys)
  assume "spaced xs" "x \<in> set xs"
  with Cons spaced_below_head [of y ys] show ?thesis by fastforce
qed

lemma spaced_at_most_one:
  assumes "spaced xs" "\<forall>x \<in> set xs. x \<le> T"
  shows "length (filter (\<lambda>r. T \<le> r) xs) \<le> 1"
proof (cases xs)
  case Nil
  then show ?thesis by simp
next
  case (Cons x ys)
  with assms have "\<forall>y \<in> set ys. y + 2000 \<le> x" and "x \<le> T"
    by (auto dest: spaced_below_head)
  then have "filter (\<lambda>r. T \<le> r) ys = []"
    by (auto simp: filter_empty_conv)
  with Cons show ?thesis by simp
qed

lemma governor_inv_fresh: "governor_inv (fresh t)"
  by (simp add: governor_inv_def fresh_def newRateLimiter_def maxRequests_def)

lemma governor_inv_step:
  assumes "governor_inv w" "0 \<le> draw c"
  shows "governor_inv (step c w)"
proof -
  define now where "now = clock w + int (idle c)"
  define rl where "rl = governor w"
  define out where "out = waitIfNeeded now (draw c) (overrun c) rl"
  define h where "h = returns w"
  define n where "n = requestCount rl"
  define r where "r = returned out"
  have w': "clock (step c w) = r" "governor (step c w) = limiter out" "returns (step c w) = r # h"
    by (simp_all add: step_def Let_def out_def now_def rl_def h_def r_def)
  have last_now: "lastRequestTime rl \<le> now"
    using assms(1) by (simp add: governor_inv_def now_def rl_def)
  have n_le: "n \<le> maxRequests"
    using assms(1) by (simp add: governor_inv_def n_def rl_def)
  have sp: "spaced h"
    using assms(1) by (simp add: governor_inv_def h_def)
  have hd_h: "h \<noteq> [] \<Longrightarrow> lastRequestTime rl = hd h \<and> 1 \<le> n"
    using assms(1) by (simp add: governor_inv_def h_def rl_def n_def)
  have old: "\<forall>x \<in> set (drop n h). x + resetInterval + 2000 * (int n - 1) \<le> hd h"
    using assms(1) by (simp add: governor_inv_def h_def rl_def n_def)
  have last': "lastRequestTime (limiter out) = r"
    by (simp add: out_def r_def waitIfNeeded_last)
  have gap: "lastRequestTime rl + 2000 \<le> r"
    unfolding r_def out_def using assms(2) last_now by (rule waitIfNeeded_spacing)
  have sp': "spaced (r # h)"
    using sp gap hd_h by (intro spaced_Cons) auto
  show ?thesis
  proof (cases "resetInterval < now - lastRequestTime rl \<or> maxRequests \<le> n")
    case True
    then have cnt: "requestCount (limiter out) = 1"
      by (simp add: out_def n_def waitIfNeeded_count)
    have far: "lastRequestTime rl + resetInterval \<le> r"
      unfolding r_def out_def using True by (intro waitIfNeeded_reset_gap) (simp add: n_def)
    have "x + resetInterval \<le> r" if "x \<in> set h" for x
    proof -
      from that have "h \<noteq> []" by auto
      with hd_h have "lastRequestTime rl = hd h" by simp
      moreover have "x \<le> hd h" using sp that by (rule spaced_le_hd)
      ultimately show ?thesis using far by simp
    qed
    then show ?thesis
      using cnt last' sp' by (simp add: governor_inv_def w' maxRequests_def)
  next
    case False
    then have cnt: "requestCount (limiter out) = n + 1"
      by (simp add: out_def n_def waitIfNeeded_count)
    from False n_le have n_lt: "n + 1 \<le> maxRequests" by simp
    have "x + resetInterval + 2000 * int n \<le> r" if "x \<in> set (drop n h)" for x
    proof -
      from that have ne: "h \<noteq> []" by auto
      with hd_h have "lastRequestTime rl = hd h" by simp
      moreover have "x + resetInterval + 2000 * (int n - 1) \<le> hd h"
        using old that by simp
      ultimately show ?thesis using gap by simp
    qed
    then show ?thesis
      using cnt last' sp' n_lt by (simp add: governor_inv_def w')
  qed
qed

lemma governor_inv_window:
  assumes "governor_inv w" "hd (returns w) \<le> T + resetInterval"
  shows "length (filter (\<lambda>r. T \<le> r) (returns w)) \<le> maxRequests"
proof (cases "returns w")
  case Nil
  then show ?thesis by simp
next
  case (Cons r h')
  define h where "h = returns w"
  define n where "n = requestCount (governor w)"
  have n: "1 \<le> n" "n \<le> maxRequests"
    using assms(1) Cons by (simp_all add: governor_inv_def n_def)
  have old: "\<forall>x \<in> set (drop n h). x + resetInterval + 2000 * (int n - 1) \<le> hd h"
    using assms(1) by (simp add: governor_inv_def h_def n_def)
  have split: "filter (\<lambda>r. T \<le> r) h =
      filter (\<lambda>r. T \<le> r) (take n h) @ filter (\<lambda>r. T \<le> r) (drop n h)"
    by (simp flip: filter_append)
  have recent: "length (filter (\<lambda>r. T \<le> r) (take n h)) \<le> n"
    by (rule order_trans [OF length_filter_le]) simp
  have below: "\<forall>x \<in> set (drop n h). x + 2000 * (int n - 1) \<le> T"
    using old assms(2) by (auto simp: h_def)
  show ?thesis
  proof (cases "n = 1")
    case True
    have "spaced (drop n h)"
      using assms(1) by (intro spaced_drop) (simp add: governor_inv_def h_def)
    moreover have "\<forall>x \<in> set (drop n h). x \<le> T"
      using below True by simp
    ultimately have "length (filter (\<lambda>r. T \<le> r) (drop n h)) \<le> 1"
      by (rule spaced_at_most_one)
    with recent True show ?thesis
      unfolding h_def [symmetric] split by (simp add: maxRequests_def)
  next
    case False
    with n have "2 \<le> n" by simp
    then have "\<forall>x \<in> set (drop n h). x < T"
      using below by fastforce
    then have "filter (\<lambda>r. T \<le> r) (drop n h) = []"
      by (auto simp: filter_empty_conv)
    with recent n show ?thesis
      unfolding h_def [symmetric] split by simp
  qed
qed

lemma filter_conj_le: "length (filter (\<lambda>x. P x \<and> Q x) xs) \<le> length (filter P xs)"
  by (induction xs) auto

lemma run_snoc: "run (cs @ [c]) w = step c (run cs w)"
  by (simp add: run_def)

lemma governor_inv_run: "\<forall>c \<in> set cs. 0 \<le> draw c \<Longrightarrow> governor_inv (run cs (fresh t))"
proof (induction cs rule: rev_induct)
  case Nil
  then show ?case by (simp add: run_def governor_inv_fresh)
next
  case (snoc c cs)
  then show ?case by (simp add: run_snoc governor_inv_step)
qed

text \<open>
  C1. Take a new limiter and any sequence of calls of \<^verbatim>\<open>waitIfNeeded()\<close>, each awaited
  before the next is made, with any idle times between them, any random draws and any
  overrun of the timers. Whatever the instant \<open>T\<close>, at most 30 of the calls return in the
  window from \<open>T\<close> to \<open>T + 60000\<close>, both ends included.
\<close>

theorem rolling_window_limit:
  assumes "\<forall>c \<in> set cs. isRandom (draw c)"
  shows "length (filter (\<lambda>r. T \<le> r \<and> r \<le> T + resetInterval) (returns (run cs (fresh t))))
         \<le> maxRequests"
  using assms
proof (induction cs rule: rev_induct)
  case Nil
  then show ?case by (simp add: run_def fresh_def)
next
  case (snoc c cs)
  let ?w = "run cs (fresh t)"
  let ?r = "clock (step c ?w)"
  have draws: "\<forall>c \<in> set (cs @ [c]). 0 \<le> draw c"
    using snoc.prems by (simp add: isRandom_def)
  have rets: "returns (step c ?w) = ?r # returns ?w"
    by (simp add: step_def Let_def)
  show ?case
  proof (cases "?r \<le> T + resetInterval")
    case True
    have "governor_inv (step c ?w)"
      using governor_inv_run [OF draws] by (simp add: run_snoc)
    moreover have "hd (returns (step c ?w)) \<le> T + resetInterval"
      using True rets by simp
    ultimately have "length (filter (\<lambda>r. T \<le> r) (returns (step c ?w))) \<le> maxRequests"
      by (rule governor_inv_window)
    then show ?thesis
      unfolding run_snoc by (rule order_trans [OF filter_conj_le])
  next
    case False
    with snoc show ?thesis
      by (simp add: run_snoc rets)
  qed
qed

text \<open>
  Forty calls made back to back, each drawing 0: the theorem bounds the returns in the
  window from 2000 to 62000.
\<close>

theorem rolling_window_limit_witness:
  "isRandom (draw \<lparr>idle = 0, draw = 0, overrun = 0\<rparr>) \<and>
   length (filter (\<lambda>r. 2000 \<le> r \<and> r \<le> 2000 + resetInterval)
     (returns (run (replicate 40 \<lparr>idle = 0, draw = 0, overrun = 0\<rparr>) (fresh 0)))) \<le> maxRequests"
  using rolling_window_limit [of "replicate 40 \<lparr>idle = 0, draw = 0, overrun = 0\<rparr>" 2000 0]
  by (simp add: isRandom_def)

section \<open>The rate limiter: reset after an idle interval\<close>

text \<open>
  C5, as stated, fails. The limiter has no window start: the time compared with the
  interval is \<open>lastRequestTime\<close>. With the last request 100000 ms ago, the first check
  resets the count and leaves \<open>lastRequestTime\<close> where it was, not at \<open>now\<close>.
\<close>

theorem interval_reset_counterexample:
  "1700000100000 - lastRequestTime \<lparr>lastRequestTime = 1700000000000, requestCount = 5\<rparr> > resetInterval \<and>
   resetIfIntervalPassed 1700000100000 \<lparr>lastRequestTime = 1700000000000, requestCount = 5\<rparr>
     = \<lparr>lastRequestTime = 1700000000000, requestCount = 0\<rparr> \<and>
   lastRequestTime (resetIfIntervalPassed 1700000100000
     \<lparr>lastRequestTime = 1700000000000, requestCount = 5\<rparr>) \<noteq> 1700000100000"
  by (simp add: resetIfIntervalPassed_def resetInterval_def)

text \<open>
  C5, amended. When more than 60000 ms have passed since \<open>lastRequestTime\<close>, the first
  check sets the count to 0 and changes nothing else. The limit check and the spacing check
  then start no timer, whatever the count was, and the call ends with the count at 1 and
  \<open>lastRequestTime\<close> at the clock reading on return.
\<close>

theorem interval_reset:
  assumes "now - lastRequestTime rl > resetInterval"
  shows "resetIfIntervalPassed now rl = rl\<lparr>requestCount := 0\<rparr> \<and>
         waitIfNeeded now u late rl =
           \<lparr>limiter = \<lparr>lastRequestTime = now + int late, requestCount = 1\<rparr>,
            limitWait = None, spacingWait = None, returned = now + int late\<rparr>"
  using assms
  by (simp add: waitIfNeeded_def resetIfIntervalPassed_def limitCheck_def naturalDelay_def
      resetInterval_def maxRequests_def Let_def)

theorem interval_reset_witness:
  "1700000100000 - lastRequestTime \<lparr>lastRequestTime = 1700000000000, requestCount = 30\<rparr> > resetInterval \<and>
   resetIfIntervalPassed 1700000100000 \<lparr>lastRequestTime = 1700000000000, requestCount = 30\<rparr>
     = \<lparr>lastRequestTime = 1700000000000, requestCount = 0\<rparr> \<and>
   waitIfNeeded 1700000100000 (1 / 2) 0 \<lparr>lastRequestTime = 1700000000000, requestCount = 30\<rparr> =
     \<lparr>limiter = \<lparr>lastRequestTime = 1700000100000, requestCount = 1\<rparr>,
      limitWait = None, spacingWait = None, returned = 1700000100000\<rparr>"
  using interval_reset [where rl = "\<lparr>lastRequestTime = 1700000000000, requestCount = 30\<rparr>"
      and now = 1700000100000 and u = "1 / 2" and late = 0]
  by (simp add: resetInterval_def)

section \<open>The rate limiter: spacing between requests\<close>

text \<open>
  C6, as stated, fails. With 1000 ms since the last request and a draw of 0.9 the spacing
  timer is 3700 ms, above \<open>(2000 - 1000) + 2000\<close>.
\<close>

theorem spacing_delay_counterexample:
  "requestCount \<lparr>lastRequestTime = 1700000000000, requestCount = 1\<rparr> < maxRequests \<and>
   1700000001000 - lastRequestTime \<lparr>lastRequestTime = 1700000000000, requestCount = 1\<rparr> = 1000 \<and>
   isRandom (9 / 10) \<and>
   spacingWait (waitIfNeeded 1700000001000 (9 / 10) 0
     \<lparr>lastRequestTime = 1700000000000, requestCount = 1\<rparr>) = Some 3700 \<and>
   \<not> (3700 \<le> (2000 - 1000) + (2000 :: int))"
  by (simp add: waitIfNeeded_def resetIfIntervalPassed_def limitCheck_def naturalDelay_def
      randomDelay_def resetInterval_def maxRequests_def isRandom_def Let_def)

text \<open>
  C6, amended. When less than 2000 ms have passed since the last request, the call awaits a
  timer whose duration lies between \<open>2000 - elapsed\<close> and 4000: the upper end is the
  constant 4000 of the source, not \<open>2000 - elapsed + 2000\<close>.
\<close>

theorem spacing_delay_range:
  assumes "isRandom u" "0 \<le> now - lastRequestTime rl" "now - lastRequestTime rl < 2000"
  shows "\<exists>d. spacingWait (waitIfNeeded now u late rl) = Some d \<and>
             2000 - (now - lastRequestTime rl) \<le> d \<and> d \<le> 4000"
proof -
  let ?e = "now - lastRequestTime rl"
  obtain w1 rl2 where lc: "limitCheck now (resetIfIntervalPassed now rl) = (w1, rl2)"
    by (cases "limitCheck now (resetIfIntervalPassed now rl)")
  have last: "lastRequestTime rl2 = lastRequestTime rl"
    using lc by (auto simp: limitCheck_def resetIfIntervalPassed_def split: if_splits)
  have sw: "spacingWait (waitIfNeeded now u late rl) = Some (randomDelay u (2000 - ?e) 4000)"
    using lc last assms(3) by (simp add: waitIfNeeded_def naturalDelay_def Let_def)
  have "2000 - ?e \<le> randomDelay u (2000 - ?e) 4000"
    using assms by (intro randomDelay_lower) (simp_all add: isRandom_def)
  moreover have "randomDelay u (2000 - ?e) 4000 \<le> 4000"
    using assms by (intro randomDelay_upper) (simp_all add: isRandom_def)
  ultimately show ?thesis
    using sw by simp
qed

theorem spacing_delay_range_witness:
  "isRandom (9 / 10) \<and>
   0 \<le> 1700000001000 - lastRequestTime \<lparr>lastRequestTime = 1700000000000, requestCount = 1\<rparr> \<and>
   1700000001000 - lastRequestTime \<lparr>lastRequestTime = 1700000000000, requestCount = 1\<rparr> < 2000 \<and>
   (\<exists>d. spacingWait (waitIfNeeded 1700000001000 (9 / 10) 0
           \<lparr>lastRequestTime = 1700000000000, requestCount = 1\<rparr>) = Some d \<and>
        1000 \<le> d \<and> d \<le> 4000)"
  using spacing_delay_range [where u = "9 / 10" and now = 1700000001000
      and rl = "\<lparr>lastRequestTime = 1700000000000, requestCount = 1\<rparr>" and late = 0]
  by (simp add: isRandom_def)

section \<open>The response handler\<close>

lemma includes_str_iff: "includes_str s p \<longleftrightarrow> sublist p s"
  by (induction s) (auto simp: sublist_Cons_right)

lemma monitor_counter:
  "monitor n (xs @ [x]) =
     monitor n xs @ [onResponse (fst x) (n + length (filter matchesBlock xs)) (snd x)]"
proof (induction xs arbitrary: n)
  case Nil
  then show ?case by (simp add: Let_def)
next
  case (Cons y ys)
  have "blockedRequests (onResponse (fst y) n (snd y)) = n + (if matchesBlock y then 1 else 0)"
    by (simp add: onResponse_def matchesBlock_def Let_def)
  then show ?case
    using Cons.IH [of "blockedRequests (onResponse (fst y) n (snd y))"]
    by (simp add: Let_def)
qed

text \<open>
  C2. The handler, run on a response after any earlier responses of the page, throws
  \<open>AutomationBlocked\<close> exactly when the URL of this response matches the block pattern and
  more than 3 of the responses so far, this one included, match it. So the fourth matching
  response is the first to throw, and nothing throws while there are 3 or fewer.
\<close>

theorem blocked_raises_after_three:
  "result (last (setupRequestMonitoring (xs @ [x]))) = Inl AutomationBlocked
     \<longleftrightarrow> matchesBlock x \<and> length (filter matchesBlock (xs @ [x])) > 3"
  by (simp add: setupRequestMonitoring_def monitor_counter onResponse_def matchesBlock_def Let_def)

text \<open>Four responses from a block page: the fourth throws; of three, the third does not.\<close>

theorem blocked_raises_after_three_witness:
  "result (last (setupRequestMonitoring
     (replicate 3 (0, \<lparr>status = 200, url = ''https://mls.example.com/blocked''\<rparr>) @
      [(0, \<lparr>status = 200, url = ''https://mls.example.com/blocked''\<rparr>)])))
     = Inl AutomationBlocked \<and>
   result (last (setupRequestMonitoring
     (replicate 2 (0, \<lparr>status = 200, url = ''https://mls.example.com/blocked''\<rparr>) @
      [(0, \<lparr>status = 200, url = ''https://mls.example.com/blocked''\<rparr>)])))
     \<noteq> Inl AutomationBlocked"
  using blocked_raises_after_three
      [of "replicate 3 (0, \<lparr>status = 200, url = ''https://mls.example.com/blocked''\<rparr>)"
          "(0, \<lparr>status = 200, url = ''https://mls.example.com/blocked''\<rparr>)"]
    blocked_raises_after_three
      [of "replicate 2 (0, \<lparr>status = 200, url = ''https://mls.example.com/blocked''\<rparr>)"
          "(0, \<lparr>status = 200, url = ''https://mls.example.com/blocked''\<rparr>)"]
  by (simp add: matchesBlock_def blockedUrl_def)

text \<open>
  C3. On status 429 the handler awaits a timer of at least 30000 and at most 60000 ms; on
  any other status it starts no cooldown timer.
\<close>

theorem cooldown_on_429:
  assumes "isRandom u"
  shows "(status resp = 429 \<longrightarrow>
            (\<exists>d. cooldown (onResponse u n resp) = Some d \<and> 30000 \<le> d \<and> d \<le> 60000)) \<and>
         (status resp \<noteq> 429 \<longrightarrow> cooldown (onResponse u n resp) = None)"
proof -
  have "30000 \<le> randomDelay u 30000 60000"
    using assms by (intro randomDelay_lower) (simp_all add: isRandom_def)
  moreover have "randomDelay u 30000 60000 \<le> 60000"
    using assms by (intro randomDelay_upper) (simp_all add: isRandom_def)
  ultimately show ?thesis
    by (simp add: onResponse_def Let_def)
qed

theorem cooldown_on_429_witness:
  "isRandom (1 / 2) \<and>
   (\<exists>d. cooldown (onResponse (1 / 2) 0 \<lparr>status = 429, url = ''https://mls.example.com/search''\<rparr>) = Some d
        \<and> 30000 \<le> d \<and> d \<le> 60000) \<and>
   cooldown (onResponse (1 / 2) 0 \<lparr>status = 403, url = ''https://mls.example.com/search''\<rparr>) = None"
  using cooldown_on_429 [where u = "1 / 2" and n = 0
      and resp = "\<lparr>status = 429, url = ''https://mls.example.com/search''\<rparr>"]
    cooldown_on_429 [where u = "1 / 2" and n = 0
      and resp = "\<lparr>status = 403, url = ''https://mls.example.com/search''\<rparr>"]
  by (simp add: isRandom_def)

text \<open>
  C7, as stated, fails. A response with status 429 whose URL contains \<open>/blocked\<close> gets the
  cooldown and is counted as a blocked request as well.
\<close>

theorem first_match_counterexample:
  "status \<lparr>status = 429, url = ''https://mls.example.com/blocked''\<rparr> = 429 \<and>
   blockedUrl (url \<lparr>status = 429, url = ''https://mls.example.com/blocked''\<rparr>) \<and>
   cooldown (onResponse (1 / 2) 0 \<lparr>status = 429, url = ''https://mls.example.com/blocked''\<rparr>)
     = Some 45000 \<and>
   blockedRequests (onResponse (1 / 2) 0 \<lparr>status = 429, url = ''https://mls.example.com/blocked''\<rparr>)
     = 1"
  by (simp add: onResponse_def blockedUrl_def randomDelay_def Let_def)

text \<open>
  C7, amended. The three rules are checked one after the other on every response, and each
  rule that matches has its effect: the cooldown exactly on status 429, the warning exactly
  on status 401 or 403, and, whatever the status, the counter goes up by one exactly when
  the URL matches, the handler throwing when the counter was already at 3 or more.
\<close>

theorem rules_are_independent:
  "(cooldown (onResponse u n resp) \<noteq> None \<longleftrightarrow> status resp = 429) \<and>
   (authWarning (onResponse u n resp) \<longleftrightarrow> status resp = 401 \<or> status resp = 403) \<and>
   blockedRequests (onResponse u n resp) = (if blockedUrl (url resp) then n + 1 else n) \<and>
   (result (onResponse u n resp) = Inl AutomationBlocked \<longleftrightarrow> blockedUrl (url resp) \<and> 3 \<le> n)"
  by (auto simp: onResponse_def Let_def)

theorem rules_are_independent_witness:
  "cooldown (onResponse (1 / 2) 3 \<lparr>status = 429, url = ''https://mls.example.com/denied''\<rparr>) \<noteq> None \<and>
   \<not> authWarning (onResponse (1 / 2) 3 \<lparr>status = 429, url = ''https://mls.example.com/denied''\<rparr>) \<and>
   blockedRequests (onResponse (1 / 2) 3 \<lparr>status = 429, url = ''https://mls.example.com/denied''\<rparr>) = 4 \<and>
   result (onResponse (1 / 2) 3 \<lparr>status = 429, url = ''https://mls.example.com/denied''\<rparr>)
     = Inl AutomationBlocked"
  using rules_are_independent
      [of "1 / 2" 3 "\<lparr>status = 429, url = ''https://mls.example.com/denied''\<rparr>"]
  by (simp add: blockedUrl_def)

section \<open>Loading a session\<close>

text \<open>
  C8. \<open>loadSession\<close> always returns: \<open>null\<close> when the path does not exist, when it cannot
  be read and when its text does not parse, and the parsed value when the file is there and
  parses.
\<close>

theorem loadSession_never_raises:
  "(\<exists>r. loadSession parse fs p = Inr r) \<and>
   (fs p = None \<longrightarrow> loadSession parse fs p = Inr \<lparr>state = JNull, warned = False\<rparr>) \<and>
   (fs p = Some Unreadable \<longrightarrow> loadSession parse fs p = Inr \<lparr>state = JNull, warned = True\<rparr>) \<and>
   (\<forall>txt e. fs p = Some (File txt) \<and> parse txt = Inl e \<longrightarrow>
      loadSession parse fs p = Inr \<lparr>state = JNull, warned = True\<rparr>) \<and>
   (\<forall>txt v. fs p = Some (File txt) \<and> parse txt = Inr v \<longrightarrow>
      loadSession parse fs p = Inr \<lparr>state = v, warned = False\<rparr>)"
  by (auto simp: loadSession_def loadSession_try_def existsSync_def readFileSync_def
      split: sum.splits option.splits node.splits)

theorem loadSession_never_raises_witness:
  "loadSession sampleParse sampleFiles ''./data/mls-session.json'' = Inr \<lparr>state = JObject [], warned = False\<rparr> \<and>
   loadSession sampleParse sampleFiles ''./data/broken.json'' = Inr \<lparr>state = JNull, warned = True\<rparr> \<and>
   loadSession sampleParse sampleFiles ''./data'' = Inr \<lparr>state = JNull, warned = True\<rparr> \<and>
   loadSession sampleParse sampleFiles ''./data/none.json'' = Inr \<lparr>state = JNull, warned = False\<rparr>"
  using loadSession_never_raises [of sampleParse sampleFiles "''./data/mls-session.json''"]
    loadSession_never_raises [of sampleParse sampleFiles "''./data/broken.json''"]
    loadSession_never_raises [of sampleParse sampleFiles "''./data''"]
    loadSession_never_raises [of sampleParse sampleFiles "''./data/none.json''"]
  by (simp add: sampleParse_def sampleFiles_def)

section \<open>Fingerprint reads\<close>

text \<open>
  C9, as stated, fails. Two reads in one session, one drawing 0 and one drawing 0.75, see
  different values of each overridden property.
\<close>

theorem fingerprint_counterexample:
  "isRandom 0 \<and> isRandom (3 / 4) \<and>
   hardwareConcurrency 0 \<noteq> hardwareConcurrency (3 / 4) \<and>
   availWidth 1920 0 \<noteq> availWidth 1920 (3 / 4) \<and>
   availHeight 1080 0 \<noteq> availHeight 1080 (3 / 4)"
  by (simp add: isRandom_def hardwareConcurrency_def availWidth_def availHeight_def)

lemma floor_scaled:
  assumes "isRandom u" "0 < k"
  shows "0 \<le> \<lfloor>u * of_int k\<rfloor> \<and> \<lfloor>u * of_int k\<rfloor> < k"
proof -
  have "0 \<le> u * of_int k"
    using assms by (simp add: isRandom_def)
  moreover have "u * of_int k < 1 * of_int k"
    using assms by (intro mult_strict_right_mono) (simp_all add: isRandom_def)
  ultimately show ?thesis
    by (simp add: floor_less_iff)
qed

text \<open>
  C9, amended. The overrides are getters that draw a new random number at each read. A read
  of \<open>hardwareConcurrency\<close> returns one of 2, 4, 8, 16; a read of \<open>availWidth\<close> returns
  the screen width less 0 to 9; a read of \<open>availHeight\<close> returns the screen height less 40
  to 79. Two reads need not agree.
\<close>

theorem fingerprint_per_read:
  assumes "isRandom u"
  shows "hardwareConcurrency u \<in> {Some 2, Some 4, Some 8, Some 16} \<and>
         width - 9 \<le> availWidth width u \<and> availWidth width u \<le> width \<and>
         height - 79 \<le> availHeight height u \<and> availHeight height u \<le> height - 40"
proof -
  define i where "i = \<lfloor>u * 4\<rfloor>"
  have "0 \<le> i \<and> i < 4"
    using floor_scaled [OF assms, of 4] by (simp add: i_def)
  then have "i = 0 \<or> i = 1 \<or> i = 2 \<or> i = 3"
    by arith
  moreover have "hardwareConcurrency u =
      (if 0 \<le> i \<and> i < 4 then Some ([2, 4, 8, 16] ! nat i) else None)"
    by (simp add: hardwareConcurrency_def i_def)
  ultimately have hc: "hardwareConcurrency u \<in> {Some 2, Some 4, Some 8, Some 16}"
    by auto
  have "0 \<le> \<lfloor>u * 10\<rfloor> \<and> \<lfloor>u * 10\<rfloor> < 10"
    using floor_scaled [OF assms, of 10] by simp
  moreover have "0 \<le> \<lfloor>u * 40\<rfloor> \<and> \<lfloor>u * 40\<rfloor> < 40"
    using floor_scaled [OF assms, of 40] by simp
  ultimately show ?thesis
    using hc by (simp add: availWidth_def availHeight_def)
qed

theorem fingerprint_per_read_witness:
  "isRandom (3 / 4) \<and> hardwareConcurrency (3 / 4) \<in> {Some 2, Some 4, Some 8, Some 16} \<and>
   1920 - 9 \<le> availWidth 1920 (3 / 4) \<and> availWidth 1920 (3 / 4) \<le> 1920 \<and>
   1080 - 79 \<le> availHeight 1080 (3 / 4) \<and> availHeight 1080 (3 / 4) \<le> 1080 - 40"
  using fingerprint_per_read [of "3 / 4" 1920 1080]
  by (simp add: isRandom_def)

section \<open>Behaviour simulation: failures\<close>

lemma mathRandom_keeps [simp]:
  "viewport (snd (mathRandom rnd s)) = viewport s"
  "alive (snd (mathRandom rnd s)) = alive s"
  "events (snd (mathRandom rnd s)) = events s"
  by (simp_all add: mathRandom_def)

lemma awaitRandomDelay_keeps [simp]:
  "viewport (awaitRandomDelay rnd mn mx s) = viewport s"
  "alive (awaitRandomDelay rnd mn mx s) = alive s"
  by (simp_all add: awaitRandomDelay_def mathRandom_def)

lemma input_closed: "alive s = Some 0 \<Longrightarrow> input ev s = Raised TargetClosed s"
  by (simp add: input_def)

lemma input_open:
  "alive s = Some (Suc k) \<Longrightarrow> input ev s = Done (s\<lparr>alive := Some k, events := events s @ [ev]\<rparr>)"
  by (simp add: input_def)

lemma generatePoints_length: "length (fst (generatePoints rnd n vp s)) = n"
  by (induction n arbitrary: s) (simp_all add: Let_def case_prod_beta)

lemma generatePoints_keeps: "alive (snd (generatePoints rnd n vp s)) = alive s"
  by (induction n arbitrary: s) (simp_all add: Let_def case_prod_beta)

lemma movePoints_raises:
  "alive s = Some k \<Longrightarrow> k < length points \<Longrightarrow> raised (movePoints rnd points s) = Some TargetClosed"
proof (induction points arbitrary: s k)
  case Nil
  then show ?case by simp
next
  case (Cons point points)
  obtain u s1 where r: "mathRandom rnd s = (u, s1)"
    by (cases "mathRandom rnd s")
  then have a1: "alive s1 = Some k"
    using Cons.prems(1) mathRandom_keeps(2) [of rnd s] by simp
  show ?case
  proof (cases k)
    case 0
    with a1 r show ?thesis
      by (simp add: input_closed)
  next
    case (Suc k')
    let ?s2 = "s1\<lparr>alive := Some k', events := events s1 @ [MouseMove (fst point) (snd point) (10 + \<lfloor>u * 10\<rfloor>)]\<rparr>"
    have "raised (movePoints rnd points (awaitRandomDelay rnd 100 300 ?s2)) = Some TargetClosed"
      using Cons.prems(2) Suc by (intro Cons.IH [of _ k']) simp_all
    with a1 r Suc show ?thesis
      by (simp add: input_open)
  qed
qed

lemma simulateMouseMovement_raises:
  assumes "0 \<le> rnd (draws s)" "viewport s = Some vp" "alive s = Some k" "k < 3"
  shows "raised (simulateMouseMovement rnd s) = Some TargetClosed"
proof -
  let ?s1 = "snd (mathRandom rnd s)"
  let ?n = "nat (3 + \<lfloor>rnd (draws s) * 3\<rfloor>)"
  let ?g = "generatePoints rnd ?n vp ?s1"
  have "0 \<le> \<lfloor>rnd (draws s) * 3\<rfloor>"
    using assms(1) by simp
  then have "k < ?n"
    using assms(4) by linarith
  then have "k < length (fst ?g)"
    by (simp only: generatePoints_length)
  moreover have "alive (snd ?g) = Some k"
    using assms(3) by (simp add: generatePoints_keeps)
  ultimately have "raised (movePoints rnd (fst ?g) (snd ?g)) = Some TargetClosed"
    by (intro movePoints_raises)
  then show ?thesis
    using assms(2) by (simp add: simulateMouseMovement_def Let_def case_prod_beta mathRandom_def)
qed

lemma scrollLoop_raises:
  "alive s = Some k \<Longrightarrow> k < n \<Longrightarrow> raised (scrollLoop rnd n s) = Some TargetClosed"
proof (induction n arbitrary: s k)
  case 0
  then show ?case by simp
next
  case (Suc n)
  let ?s1 = "snd (mathRandom rnd s)"
  let ?amount = "100 + \<lfloor>fst (mathRandom rnd s) * 300\<rfloor>"
  have a1: "alive ?s1 = Some k"
    using Suc.prems(1) by simp
  show ?case
  proof (cases k)
    case 0
    with a1 show ?thesis
      by (simp add: Let_def case_prod_beta input_closed)
  next
    case k: (Suc k')
    let ?s2 = "?s1\<lparr>alive := Some k', events := events ?s1 @ [MouseWheel 0 (of_int ?amount)]\<rparr>"
    let ?s3 = "awaitRandomDelay rnd 500 1500 ?s2"
    let ?s4 = "snd (mathRandom rnd ?s3)"
    have a4: "alive ?s4 = Some k'"
      by simp
    have k': "k' < n"
      using Suc.prems(2) k by simp
    have scrollback: "raised (case input (MouseWheel 0 (- of_int ?amount / 2)) ?s4 of
                   Done s5 \<Rightarrow> scrollLoop rnd n (awaitRandomDelay rnd 300 800 s5)
                 | Raised e s5 \<Rightarrow> Raised e s5) = Some TargetClosed"
    proof (cases k')
      case 0
      with a4 show ?thesis
        by (simp add: input_closed)
    next
      case (Suc k'')
      let ?s5 = "?s4\<lparr>alive := Some k'', events := events ?s4 @ [MouseWheel 0 (- of_int ?amount / 2)]\<rparr>"
      have "raised (scrollLoop rnd n (awaitRandomDelay rnd 300 800 ?s5)) = Some TargetClosed"
        using k' Suc by (intro Suc.IH [of _ k'']) simp_all
      with a4 Suc show ?thesis
        by (simp add: input_open)
    qed
    have onward: "raised (scrollLoop rnd n ?s4) = Some TargetClosed"
      using a4 k' by (rule Suc.IH)
    show ?thesis
      using a1 k scrollback onward
      by (simp add: Let_def case_prod_beta input_open)
  qed
qed

lemma humanScroll_raises:
  assumes "0 \<le> rnd (draws s)" "alive s = Some k" "k < 2"
  shows "raised (humanScroll rnd s) = Some TargetClosed"
proof -
  have "0 \<le> \<lfloor>rnd (draws s) * 3\<rfloor>"
    using assms(1) by simp
  then have "k < nat (2 + \<lfloor>rnd (draws s) * 3\<rfloor>)"
    using assms(3) by linarith
  moreover have "alive (snd (mathRandom rnd s)) = Some k"
    using assms(2) by simp
  ultimately have "raised (scrollLoop rnd (nat (2 + \<lfloor>rnd (draws s) * 3\<rfloor>)) (snd (mathRandom rnd s)))
      = Some TargetClosed"
    by (intro scrollLoop_raises)
  then show ?thesis
    by (simp add: humanScroll_def Let_def case_prod_beta mathRandom_def)
qed

lemma randomClick_raises:
  assumes "viewport s = Some vp" "alive s = Some 0"
  shows "raised (randomClick rnd s) = Some TargetClosed"
  using assms by (simp add: randomClick_def Let_def case_prod_beta input_closed)

lemma action_raises:
  assumes "0 \<le> rnd (draws s)" "viewport s = Some vp" "alive s = Some 0" "0 \<le> i" "i < 5"
  shows "raised (action rnd i s) = Some TargetClosed"
proof -
  from assms(4,5) have "i = 0 \<or> i = 1 \<or> i = 2 \<or> i = 3 \<or> i = 4"
    by arith
  moreover have "raised (simulateMouseMovement rnd s) = Some TargetClosed"
    using assms(1-3) by (intro simulateMouseMovement_raises [where k = 0]) simp_all
  moreover have "raised (humanScroll rnd s) = Some TargetClosed"
    using assms(1,3) by (intro humanScroll_raises [where k = 0]) simp_all
  moreover have "raised (randomClick rnd s) = Some TargetClosed"
    using assms(2,3) by (rule randomClick_raises)
  ultimately show ?thesis
    using assms(3) by (auto simp: action_def input_closed)
qed

lemma raised_case:
  "raised r = Some e \<Longrightarrow> raised (case r of Done s \<Rightarrow> f s | Raised e' s \<Rightarrow> Raised e' s) = Some e"
  by (cases r) simp_all

lemma simulateRealisticBehavior_raises:
  assumes "\<forall>i. isRandom (rnd i)" "viewport s = Some vp" "alive s = Some 0"
  shows "raised (simulateRealisticBehavior rnd s) = Some TargetClosed"
proof -
  let ?s1 = "snd (mathRandom rnd s)"
  let ?s2 = "snd (mathRandom rnd ?s1)"
  let ?i = "\<lfloor>fst (mathRandom rnd ?s1) * 5\<rfloor>"
  have rnd: "0 \<le> rnd j" "rnd j < 1" for j
    using assms(1) by (simp_all add: isRandom_def)
  have "0 \<le> \<lfloor>rnd (draws s) * 3\<rfloor>"
    using rnd(1) by simp
  then have "0 < nat (1 + \<lfloor>rnd (draws s) * 3\<rfloor>)"
    by linarith
  then obtain m where m: "nat (1 + \<lfloor>rnd (draws s) * 3\<rfloor>) = Suc m"
    using gr0_implies_Suc by blast
  have u: "fst (mathRandom rnd ?s1) = rnd (draws ?s1)"
    by (simp add: mathRandom_def)
  have "0 \<le> rnd (draws ?s1) * 5" "rnd (draws ?s1) * 5 < 5"
    using rnd [of "draws ?s1"] by simp_all
  then have i: "0 \<le> ?i" "?i < 5"
    unfolding u by (simp_all add: floor_less_iff)
  have "raised (action rnd ?i ?s2) = Some TargetClosed"
    using i assms(2,3) rnd(1) by (intro action_raises) simp_all
  then have "raised (behaviorLoop rnd (Suc m) ?s1) = Some TargetClosed"
    by (simp add: Let_def case_prod_beta raised_case)
  then show ?thesis
    using m by (simp add: simulateRealisticBehavior_def Let_def case_prod_beta mathRandom_def)
qed

text \<open>
  C4, as stated, fails. On a page whose context closes after one more input action, each of
  the three operations ends by raising \<open>TargetClosed\<close> to its caller.
\<close>

theorem simulations_raise_counterexample:
  "raised (simulateMouseMovement (\<lambda>_. 1 / 2)
     \<lparr>viewport = Some (1280, 720), alive = Some 1, events = [], draws = 0\<rparr>) = Some TargetClosed \<and>
   raised (humanScroll (\<lambda>_. 1 / 2)
     \<lparr>viewport = Some (1280, 720), alive = Some 1, events = [], draws = 0\<rparr>) = Some TargetClosed \<and>
   raised (simulateRealisticBehavior (\<lambda>_. 1 / 2)
     \<lparr>viewport = Some (1280, 720), alive = Some 1, events = [], draws = 0\<rparr>) = Some TargetClosed"
  by (simp add: simulateMouseMovement_def humanScroll_def simulateRealisticBehavior_def
      action_def mathRandom_def awaitRandomDelay_def input_def Let_def numeral_eq_Suc)

text \<open>
  C4, amended. None of the three operations catches a failing action. With a viewport, if
  the context closes before the last pointer move of \<open>simulateMouseMovement\<close>, before the
  last scroll burst of \<open>humanScroll\<close>, or before \<open>simulateRealisticBehavior\<close> starts, the
  operation stops at the failing action and raises \<open>TargetClosed\<close> to the caller.
\<close>

theorem simulations_propagate_failure:
  assumes "\<forall>i. isRandom (rnd i)" "viewport s = Some vp" "alive s = Some k"
  shows "(k < nat (3 + \<lfloor>rnd (draws s) * 3\<rfloor>) \<longrightarrow>
            raised (simulateMouseMovement rnd s) = Some TargetClosed) \<and>
         (k < nat (2 + \<lfloor>rnd (draws s) * 3\<rfloor>) \<longrightarrow>
            raised (humanScroll rnd s) = Some TargetClosed) \<and>
         (k = 0 \<longrightarrow> raised (simulateRealisticBehavior rnd s) = Some TargetClosed)"
proof (intro conjI impI)
  let ?s1 = "snd (mathRandom rnd s)"
  assume k: "k < nat (3 + \<lfloor>rnd (draws s) * 3\<rfloor>)"
  let ?g = "generatePoints rnd (nat (3 + \<lfloor>rnd (draws s) * 3\<rfloor>)) vp ?s1"
  have "k < length (fst ?g)"
    using k by (simp only: generatePoints_length)
  moreover have "alive (snd ?g) = Some k"
    using assms(3) by (simp add: generatePoints_keeps)
  ultimately have "raised (movePoints rnd (fst ?g) (snd ?g)) = Some TargetClosed"
    by (intro movePoints_raises)
  then show "raised (simulateMouseMovement rnd s) = Some TargetClosed"
    using assms(2) by (simp add: simulateMouseMovement_def Let_def case_prod_beta mathRandom_def)
next
  assume k: "k < nat (2 + \<lfloor>rnd (draws s) * 3\<rfloor>)"
  have "alive (snd (mathRandom rnd s)) = Some k"
    using assms(3) by simp
  then have "raised (scrollLoop rnd (nat (2 + \<lfloor>rnd (draws s) * 3\<rfloor>)) (snd (mathRandom rnd s)))
      = Some TargetClosed"
    using k by (intro scrollLoop_raises)
  then show "raised (humanScroll rnd s) = Some TargetClosed"
    by (simp add: humanScroll_def Let_def case_prod_beta mathRandom_def)
next
  assume "k = 0"
  with assms show "raised (simulateRealisticBehavior rnd s) = Some TargetClosed"
    by (intro simulateRealisticBehavior_raises) simp_all
qed

theorem simulations_propagate_failure_witness:
  "(\<forall>i. isRandom ((\<lambda>_. 1 / 2) i)) \<and>
   (1 :: nat) < nat (3 + \<lfloor>(1 / 2 :: real) * 3\<rfloor>) \<and> (1 :: nat) < nat (2 + \<lfloor>(1 / 2 :: real) * 3\<rfloor>) \<and>
   raised (simulateMouseMovement (\<lambda>_. 1 / 2)
     \<lparr>viewport = Some (1280, 720), alive = Some 1, events = [], draws = 7\<rparr>) = Some TargetClosed \<and>
   raised (humanScroll (\<lambda>_. 1 / 2)
     \<lparr>viewport = Some (1280, 720), alive = Some 1, events = [], draws = 7\<rparr>) = Some TargetClosed \<and>
   raised (simulateRealisticBehavior (\<lambda>_. 1 / 2)
     \<lparr>viewport = Some (1280, 720), alive = Some 0, events = [], draws = 7\<rparr>) = Some TargetClosed"
  using simulations_propagate_failure [where rnd = "\<lambda>_. 1 / 2" and vp = "(1280, 720)" and k = 1
      and s = "\<lparr>viewport = Some (1280, 720), alive = Some 1, events = [], draws = 7\<rparr>"]
    simulations_propagate_failure [where rnd = "\<lambda>_. 1 / 2" and vp = "(1280, 720)" and k = 0
      and s = "\<lparr>viewport = Some (1280, 720), alive = Some 0, events = [], draws = 7\<rparr>"]
  by (simp add: isRandom_def)

section \<open>Behaviour simulation: pages without a viewport\<close>

lemma quiet_refl: "quiet s s"
  by (simp add: quiet_def)

lemma quiet_trans: "quiet s t \<Longrightarrow> quiet t u \<Longrightarrow> quiet s u"
  by (simp add: quiet_def)

lemma mathRandom_quiet: "quiet s (snd (mathRandom rnd s))"
  by (simp add: quiet_def)

lemma awaitRandomDelay_quiet: "quiet s (awaitRandomDelay rnd mn mx s)"
  by (simp add: quiet_def awaitRandomDelay_def mathRandom_def)

lemma input_quiet: "\<not> isPointer ev \<Longrightarrow> quiet s (pageOf (input ev s))"
  by (simp add: quiet_def input_def split: option.splits nat.splits)

lemma scrollLoop_quiet: "quiet s (pageOf (scrollLoop rnd n s))"
proof (induction n arbitrary: s)
  case 0
  then show ?case by (simp add: quiet_refl)
next
  case (Suc n)
  let ?s1 = "snd (mathRandom rnd s)"
  let ?amount = "100 + \<lfloor>fst (mathRandom rnd s) * 300\<rfloor>"
  have q1: "quiet s ?s1"
    by (rule mathRandom_quiet)
  show ?case
  proof (cases "input (MouseWheel 0 (of_int ?amount)) ?s1")
    case (Raised e s2)
    have "quiet ?s1 (pageOf (input (MouseWheel 0 (of_int ?amount)) ?s1))"
      by (rule input_quiet) simp
    with Raised q1 show ?thesis
      by (auto simp: Let_def case_prod_beta intro: quiet_trans)
  next
    case (Done s2)
    let ?s3 = "awaitRandomDelay rnd 500 1500 s2"
    let ?s4 = "snd (mathRandom rnd ?s3)"
    have "quiet ?s1 (pageOf (input (MouseWheel 0 (of_int ?amount)) ?s1))"
      by (rule input_quiet) simp
    with Done q1 have q2: "quiet s s2"
      by (auto intro: quiet_trans)
    have q4: "quiet s ?s4"
      using q2 awaitRandomDelay_quiet [of s2 rnd 500 1500] mathRandom_quiet [of ?s3 rnd]
      by (blast intro: quiet_trans)
    have onward: "quiet s (pageOf (scrollLoop rnd n ?s4))"
      using q4 Suc.IH [of ?s4] by (rule quiet_trans)
    have scrollback: "quiet s (pageOf (case input (MouseWheel 0 (- of_int ?amount / 2)) ?s4 of
                   Done s5 \<Rightarrow> scrollLoop rnd n (awaitRandomDelay rnd 300 800 s5)
                 | Raised e s5 \<Rightarrow> Raised e s5))"
    proof (cases "input (MouseWheel 0 (- of_int ?amount / 2)) ?s4")
      case (Raised e s5)
      have "quiet ?s4 (pageOf (input (MouseWheel 0 (- of_int ?amount / 2)) ?s4))"
        by (rule input_quiet) simp
      with Raised q4 show ?thesis
        by (auto intro: quiet_trans)
    next
      case inner: (Done s5)
      have "quiet ?s4 (pageOf (input (MouseWheel 0 (- of_int ?amount / 2)) ?s4))"
        by (rule input_quiet) simp
      with inner q4 have "quiet s s5"
        by (auto intro: quiet_trans)
      then have "quiet s (awaitRandomDelay rnd 300 800 s5)"
        using awaitRandomDelay_quiet by (rule quiet_trans)
      then have "quiet s (pageOf (scrollLoop rnd n (awaitRandomDelay rnd 300 800 s5)))"
        using Suc.IH by (rule quiet_trans)
      with inner show ?thesis by simp
    qed
    show ?thesis
      using Done onward scrollback by (simp add: Let_def case_prod_beta)
  qed
qed

lemma humanScroll_quiet: "quiet s (pageOf (humanScroll rnd s))"
proof -
  have "quiet s (snd (mathRandom rnd s))"
    by (rule mathRandom_quiet)
  then have "quiet s (pageOf (scrollLoop rnd n (snd (mathRandom rnd s))))" for n
    using scrollLoop_quiet by (rule quiet_trans)
  then show ?thesis
    by (simp add: humanScroll_def Let_def case_prod_beta)
qed

lemma action_quiet:
  assumes "viewport s = None"
  shows "quiet s (pageOf (action rnd i s))"
  using assms humanScroll_quiet [of s rnd]
    input_quiet [of "KeyPress ''Tab''" s] input_quiet [of "KeyPress ''Escape''" s]
  by (simp add: action_def simulateMouseMovement_def randomClick_def quiet_refl)

lemma behaviorLoop_quiet:
  "viewport s = None \<Longrightarrow> quiet s (pageOf (behaviorLoop rnd n s))"
proof (induction n arbitrary: s)
  case 0
  then show ?case by (simp add: quiet_refl)
next
  case (Suc n)
  let ?s1 = "snd (mathRandom rnd s)"
  let ?i = "\<lfloor>fst (mathRandom rnd s) * 5\<rfloor>"
  have v1: "viewport ?s1 = None"
    using Suc.prems by simp
  have q1: "quiet s ?s1"
    by (rule mathRandom_quiet)
  have qa: "quiet ?s1 (pageOf (action rnd ?i ?s1))"
    using v1 by (rule action_quiet)
  show ?case
  proof (cases "action rnd ?i ?s1")
    case (Raised e s2)
    with q1 qa show ?thesis
      by (auto simp: Let_def case_prod_beta intro: quiet_trans)
  next
    case (Done s2)
    let ?s3 = "awaitRandomDelay rnd 500 2000 s2"
    from Done q1 qa have "quiet s s2"
      by (auto intro: quiet_trans)
    then have q3: "quiet s ?s3"
      using awaitRandomDelay_quiet by (rule quiet_trans)
    then have "viewport ?s3 = None"
      using Suc.prems by (simp add: quiet_def)
    then have "quiet ?s3 (pageOf (behaviorLoop rnd n ?s3))"
      by (rule Suc.IH)
    with q3 have "quiet s (pageOf (behaviorLoop rnd n ?s3))"
      by (rule quiet_trans)
    with Done show ?thesis
      by (simp add: Let_def case_prod_beta)
  qed
qed

text \<open>
  C10. Without a viewport \<open>simulateMouseMovement\<close> returns at once and leaves the page as
  it found it: no move, no timer, no random draw, no error. The click action does the same,
  and a whole run of \<open>simulateRealisticBehavior\<close> adds no move and no click.
\<close>

theorem null_viewport_is_noop:
  assumes "viewport s = None"
  shows "simulateMouseMovement rnd s = Done s \<and>
         randomClick rnd s = Done s \<and>
         action rnd 4 s = Done s \<and>
         filter isPointer (events (pageOf (simulateRealisticBehavior rnd s)))
           = filter isPointer (events s)"
proof -
  let ?s1 = "snd (mathRandom rnd s)"
  have "viewport ?s1 = None"
    using assms by simp
  then have "quiet ?s1 (pageOf (behaviorLoop rnd n ?s1))" for n
    by (rule behaviorLoop_quiet)
  then have "quiet s (pageOf (behaviorLoop rnd n ?s1))" for n
    using mathRandom_quiet [of s rnd] quiet_trans by blast
  then have "quiet s (pageOf (simulateRealisticBehavior rnd s))"
    by (simp add: simulateRealisticBehavior_def Let_def case_prod_beta)
  then show ?thesis
    using assms by (simp add: simulateMouseMovement_def randomClick_def action_def quiet_def)
qed

theorem null_viewport_is_noop_witness:
  "viewport \<lparr>viewport = None, alive = Some 0, events = [], draws = 0\<rparr> = None \<and>
   simulateMouseMovement (\<lambda>_. 1 / 2) \<lparr>viewport = None, alive = Some 0, events = [], draws = 0\<rparr>
     = Done \<lparr>viewport = None, alive = Some 0, events = [], draws = 0\<rparr> \<and>
   randomClick (\<lambda>_. 1 / 2) \<lparr>viewport = None, alive = Some 0, events = [], draws = 0\<rparr>
     = Done \<lparr>viewport = None, alive = Some 0, events = [], draws = 0\<rparr> \<and>
   filter isPointer (events (pageOf (simulateRealisticBehavior (\<lambda>_. 1 / 2)
     \<lparr>viewport = None, alive = Some 0, events = [], draws = 0\<rparr>))) = []"
  using null_viewport_is_noop [of "\<lparr>viewport = None, alive = Some 0, events = [], draws = 0\<rparr>" "\<lambda>_. 1 / 2"]
  by simp


end
